theory Spec2Isabelle
  imports Main
begin

section \<open>Values handled by the children traversal\<close>

text \<open>
  The two values of the \<open>$$typeof\<close> tag that the traversal recognises
  (imported from \<open>shared/ReactSymbols\<close>).
\<close>

datatype elemType = REACT_ELEMENT_TYPE | REACT_PORTAL_TYPE

text \<open>
  The \<open>key\<close> property of an object other than an element: absent (\<open>null\<close> or
  \<open>undefined\<close>), a value that \<open>'' + key\<close> turns into the given string, or a
  value for which that conversion throws a \<open>TypeError\<close> (a symbol, an object
  without \<open>toString\<close> and \<open>valueOf\<close>).
\<close>

datatype keyProp = NoKey | Key string | BadKey

text \<open>
  The JavaScript values a \<open>ReactNodeList\<close> can hold, as far as \<open>ReactChildren\<close>
  tells them apart. A \<open>Leaf\<close> is an object carrying one of the two \<open>$$typeof\<close>
  tags, as the element factory of \<open>./ReactElement\<close> makes it: its \<open>key\<close> is
  \<open>null\<close> (\<open>None\<close>) or a string, and the rest of its fields is an opaque payload.
  An \<open>Arr\<close> is an array and an \<open>Iterable\<close> a non-array object with an iterator,
  given by the finite sequence of values its iterator yields before \<open>done\<close>; both
  carry their \<open>key\<close> property. An \<open>Obj\<close> is any other object: its \<open>key\<close>
  property, its string form (the value of \<open>'' + obj\<close>, \<open>None\<close> when that conversion
  throws a \<open>TypeError\<close>, as for an object without \<open>toString\<close> and \<open>valueOf\<close>)
  and its enumerable own keys (\<open>Object.keys\<close>). \<open>Func\<close> stands for the remaining
  values (functions, symbols), whose \<open>typeof\<close> is neither a scalar type nor
  \<open>object\<close>. A number is carried as an integer: the traversal passes numbers on
  and never computes with them.
\<close>

datatype jsval =
    Undefined
  | Null
  | Bool bool
  | Str string
  | Num int
  | Leaf elemType "string option" string
  | Arr keyProp "jsval list"
  | Iterable keyProp "jsval list"
  | Obj keyProp "string option" "string list"
  | Func string

text \<open>
  The errors that abort a traversal: the two failed invariants, with their messages,
  and the \<open>TypeError\<close> of a conversion to a string that throws.
\<close>

datatype error = InvalidChildType string | NotSingleElement string | TypeError

fun typeof :: "jsval \<Rightarrow> string" where
  "typeof Undefined = ''undefined''"
| "typeof Null = ''object''"
| "typeof (Bool b) = ''boolean''"
| "typeof (Str s) = ''string''"
| "typeof (Num n) = ''number''"
| "typeof (Leaf t k p) = ''object''"
| "typeof (Arr kp xs) = ''object''"
| "typeof (Iterable kp xs) = ''object''"
| "typeof (Obj kp str ks) = ''object''"
| "typeof (Func f) = ''function''"

text \<open>The \<open>$$typeof\<close> property, when it is one of the two recognised tags.\<close>

fun typeofTag :: "jsval \<Rightarrow> elemType option" where
  "typeofTag (Leaf t k p) = Some t"
| "typeofTag v = None"

text \<open>The \<open>key\<close> property of a value; \<open>NoKey\<close> stands for \<open>null\<close> and \<open>undefined\<close>.\<close>

fun keyOf :: "jsval \<Rightarrow> keyProp" where
  "keyOf (Leaf t k p) = (case k of None \<Rightarrow> NoKey | Some key \<Rightarrow> Key key)"
| "keyOf (Arr kp xs) = kp"
| "keyOf (Iterable kp xs) = kp"
| "keyOf (Obj kp str ks) = kp"
| "keyOf v = NoKey"

text \<open>The conversion \<open>'' + key\<close> of a key that is not \<open>null\<close> or \<open>undefined\<close>.\<close>

fun keyString :: "keyProp \<Rightarrow> error + string" where
  "keyString (Key key) = Inr key"
| "keyString BadKey = Inl TypeError"
| "keyString NoKey = Inr ''null''"

text \<open>
  The conversion \<open>'' + children\<close> and \<open>Object.keys children\<close>, which the traversal
  applies to a plain object only.
\<close>

fun objectString :: "jsval \<Rightarrow> string option" where
  "objectString (Obj kp str ks) = str"
| "objectString v = None"

fun objectKeys :: "jsval \<Rightarrow> string list" where
  "objectKeys (Obj kp str ks) = ks"
| "objectKeys v = []"

fun isArray :: "jsval \<Rightarrow> bool" where
  "isArray (Arr kp xs) = True"
| "isArray v = False"

text \<open>JavaScript truthiness, for \<open>!child\<close>, \<open>mappedChild.key && ...\<close> and \<open>... || []\<close>.\<close>

fun truthy :: "jsval \<Rightarrow> bool" where
  "truthy Undefined = False"
| "truthy Null = False"
| "truthy (Bool b) = b"
| "truthy (Str s) = (s \<noteq> [])"
| "truthy (Num n) = (n \<noteq> 0)"
| "truthy v = True"

text \<open>The test \<open>v != null\<close> is false exactly for \<open>null\<close> and \<open>undefined\<close>.\<close>

definition looseNull :: "jsval \<Rightarrow> bool" where
  "looseNull v = (v = Null \<or> v = Undefined)"

section \<open>Collaborators that are not part of the excerpt\<close>

text \<open>
  Modelled from the spec: \<open>isValidElement\<close> of \<open>./ReactElement\<close>, which is not
  in the excerpt. The spec describes it as the predicate "is this a recognized leaf
  value", a Leaf being an element-like value of either subvariant.
\<close>

definition isValidElement :: "jsval \<Rightarrow> bool" where
  "isValidElement v = (typeofTag v \<noteq> None)"

text \<open>
  Modelled from the spec: \<open>cloneAndReplaceKey\<close> of \<open>./ReactElement\<close>, which is
  not in the excerpt: "clone this leaf, replacing its own key", keeping every other
  attribute and the type tag.
\<close>

fun cloneAndReplaceKey :: "jsval \<Rightarrow> string \<Rightarrow> jsval" where
  "cloneAndReplaceKey (Leaf t k p) newKey = Leaf t (Some newKey) p"
| "cloneAndReplaceKey v newKey = v"

text \<open>
  Modelled from the spec: \<open>getIteratorFn\<close> of \<open>shared/ReactSymbols\<close>, which is
  not in the excerpt: it returns a function producing an iterator, or a sentinel for
  "not iterable". Here the result is the sequence the iterator yields.
\<close>

fun getIteratorFn :: "jsval \<Rightarrow> jsval list option" where
  "getIteratorFn (Iterable kp xs) = Some xs"
| "getIteratorFn v = None"

text \<open>
  Modelled from the spec: \<open>invariant\<close> of \<open>shared/invariant\<close>, which is not in
  the excerpt. A failed invariant aborts with an error whose message is the format
  string with \<open>%s\<close> replaced by the argument.
\<close>

fun sprintf1 :: "string \<Rightarrow> string \<Rightarrow> string" where
  "sprintf1 [] arg = []"
| "sprintf1 (c # rest) arg =
     (if c = CHR ''%'' \<and> take 1 rest = ''s'' then arg @ drop 1 rest
      else c # sprintf1 rest arg)"

definition invariant :: "bool \<Rightarrow> (string \<Rightarrow> error) \<Rightarrow> string \<Rightarrow> string \<Rightarrow> error + unit" where
  "invariant condition kind format arg =
     (if condition then Inr () else Inl (kind (sprintf1 format arg)))"

section \<open>Key escaping\<close>

definition SEPARATOR :: string where
  "SEPARATOR = ''.''"

definition SUBSEPARATOR :: string where
  "SUBSEPARATOR = '':''"

text \<open>
  \<open>escape\<close>: \<open>key.replace(/[=:]/g, match => escaperLookup[match])\<close>, then the
  prefix \<open>$\<close>. The global replace rewrites every character the class matches.
\<close>

definition escaperLookup :: "char \<Rightarrow> string" where
  "escaperLookup c = (if c = CHR ''='' then ''=0'' else if c = CHR '':'' then ''=2'' else [c])"

definition escapeRegex :: "char \<Rightarrow> bool" where
  "escapeRegex c = (c = CHR ''='' \<or> c = CHR '':'')"

definition escape :: "string \<Rightarrow> string" where
  "escape key = CHR ''$'' # concat (map (\<lambda>c. if escapeRegex c then escaperLookup c else [c]) key)"

text \<open>
  \<open>escapeUserProvidedKey\<close>: \<open>text.replace(/\/+/g, '$&/')\<close>. The scan goes left to
  right; at a slash the greedy \<open>\/+\<close> matches the whole run of slashes, which is
  replaced by itself (\<open>$&\<close>) followed by one slash, and the scan goes on after the run.
\<close>

function escapeUserProvidedKey :: "string \<Rightarrow> string" where
  "escapeUserProvidedKey [] = []"
| "escapeUserProvidedKey (c # cs) =
     (if c = CHR ''/''
      then (c # takeWhile (\<lambda>d. d = CHR ''/'') cs) @ ''/'' @
           escapeUserProvidedKey (dropWhile (\<lambda>d. d = CHR ''/'') cs)
      else c # escapeUserProvidedKey cs)"
  by pat_completeness auto
termination
  by (relation "measure length") (auto simp: length_dropWhile_le less_Suc_eq_le)

section \<open>Keys of children\<close>

definition digit36 :: "nat \<Rightarrow> char" where
  "digit36 d = ''0123456789abcdefghijklmnopqrstuvwxyz'' ! d"

text \<open>\<open>index.toString(36)\<close> for a non-negative integer index.\<close>

function toString36 :: "nat \<Rightarrow> string" where
  "toString36 n = (if n < 36 then [digit36 n] else toString36 (n div 36) @ [digit36 (n mod 36)])"
  by pat_completeness auto
termination
  by (relation "measure id") auto

declare toString36.simps [simp del]

definition getElementKey :: "jsval \<Rightarrow> nat \<Rightarrow> error + string" where
  "getElementKey element index =
     (if typeof element = ''object'' \<and> element \<noteq> Null \<and> keyOf element \<noteq> NoKey
      then (case keyString (keyOf element) of
              Inl e \<Rightarrow> Inl e
            | Inr key \<Rightarrow> Inr (escape key))
      else Inr (toString36 index))"

section \<open>The traversal\<close>

text \<open>
  A callback may have effects: it takes the state of the world it can change and
  returns its result with the new state. \<open>identityCallback\<close> is \<open>c => c\<close>.
\<close>

type_synonym 's callback = "jsval \<Rightarrow> 's \<Rightarrow> jsval \<times> 's"

definition identityCallback :: "'s callback" where
  "identityCallback c s = (c, s)"

text \<open>The value of \<open>invokeCallback\<close> for the normalised \<open>children\<close> and its \<open>typeof\<close>.\<close>

definition invokeCallback :: "jsval \<Rightarrow> string \<Rightarrow> bool" where
  "invokeCallback children type =
     (if children = Null then True
      else if type = ''string'' \<or> type = ''number'' then True
      else if type = ''object'' then
        (case typeofTag children of
           Some REACT_ELEMENT_TYPE \<Rightarrow> True
         | Some REACT_PORTAL_TYPE \<Rightarrow> True
         | None \<Rightarrow> False)
      else False)"

definition invalidChildFormat :: string where
  "invalidChildFormat =
     ''Objects are not valid as a React child (found: %s). '' @
     ''If you meant to render a collection of children, use an array '' @
     ''instead.''"

fun join :: "string \<Rightarrow> string list \<Rightarrow> string" where
  "join sep [] = []"
| "join sep [x] = x"
| "join sep (x # y # ys) = x @ sep @ join sep (y # ys)"

text \<open>
  The description of the offending object that goes into the message, from its
  string form and its keys.
\<close>

definition describeObject :: "string \<Rightarrow> string list \<Rightarrow> string" where
  "describeObject childrenString ks =
     (if childrenString = ''[object Object]''
      then ''object with keys {'' @ join '', '' ks @ ''}''
      else childrenString)"

text \<open>
  \<open>mapIntoArray\<close> returns the number of leaves it passed to the callback at this
  level, with the accumulator \<open>array\<close> as it has become, or the error that aborted
  it; the state of the callback is returned in both cases. \<open>mapItems\<close> is the body
  shared by the loop over an array and the loop over an iterator: \<open>i\<close> is the index
  of the next child (\<open>i\<close>, or \<open>ii\<close>), \<open>subtreeCount\<close> the running sum. A
  conversion to a string that throws aborts the traversal where the source
  evaluates it: \<open>'' + element.key\<close> inside \<open>getElementKey\<close>, and \<open>'' + children\<close>
  before the invariant. The development-only warning about Maps as children is
  left out.
\<close>

function
  mapIntoArray :: "jsval \<Rightarrow> jsval list \<Rightarrow> string \<Rightarrow> string \<Rightarrow> 's callback \<Rightarrow> 's
                   \<Rightarrow> (error + nat \<times> jsval list) \<times> 's"
and
  mapItems :: "jsval list \<Rightarrow> nat \<Rightarrow> nat \<Rightarrow> jsval list \<Rightarrow> string \<Rightarrow> string \<Rightarrow> 's callback \<Rightarrow> 's
               \<Rightarrow> (error + nat \<times> jsval list) \<times> 's"
where
  "mapIntoArray children0 array escapedPrefix nameSoFar callback s =
     (let type = typeof children0;
          children = (if type = ''undefined'' \<or> type = ''boolean'' then Null else children0)
      in
      if invokeCallback children type then
        (let child = children;
             (mappedChild, s1) = callback child s
         in
         case (if nameSoFar = []
               then (case getElementKey child 0 of
                       Inl e \<Rightarrow> Inl e
                     | Inr key \<Rightarrow> Inr (SEPARATOR @ key))
               else Inr nameSoFar) of
           Inl e \<Rightarrow> (Inl e, s1)
         | Inr childKey \<Rightarrow>
           if isArray mappedChild then
             (let escapedChildKey = escapeUserProvidedKey childKey @ ''/'' in
              case mapIntoArray mappedChild array escapedChildKey [] identityCallback s1 of
                (Inl e, s2) \<Rightarrow> (Inl e, s2)
              | (Inr (n, array'), s2) \<Rightarrow> (Inr (1, array'), s2))
           else if \<not> looseNull mappedChild then
             (let mappedChild' =
                (if isValidElement mappedChild then
                   cloneAndReplaceKey mappedChild
                     (escapedPrefix @
                      (case keyOf mappedChild of
                         Key key \<Rightarrow>
                           (if key \<noteq> [] \<and> (\<not> truthy child \<or> keyOf child \<noteq> keyOf mappedChild)
                            then escapeUserProvidedKey key @ ''/''
                            else [])
                       | NoKey \<Rightarrow> []
                       | BadKey \<Rightarrow> []) @
                      childKey)
                 else mappedChild)
              in (Inr (1, array @ [mappedChild']), s1))
           else (Inr (1, array), s1))
      else
        (let nextNamePrefix = (if nameSoFar = [] then SEPARATOR else nameSoFar @ SUBSEPARATOR) in
         case children of
           Arr kp xs \<Rightarrow> mapItems xs 0 0 array escapedPrefix nextNamePrefix callback s
         | _ \<Rightarrow>
           (case getIteratorFn children of
              Some ys \<Rightarrow> mapItems ys 0 0 array escapedPrefix nextNamePrefix callback s
            | None \<Rightarrow>
              (if type = ''object'' then
                 (case objectString children of
                    None \<Rightarrow> (Inl TypeError, s)
                  | Some childrenString \<Rightarrow>
                    (case invariant False InvalidChildType invalidChildFormat
                            (describeObject childrenString (objectKeys children)) of
                       Inl e \<Rightarrow> (Inl e, s)
                     | Inr u \<Rightarrow> (Inr (0, array), s)))
               else (Inr (0, array), s)))))"
| "mapItems [] i subtreeCount array escapedPrefix nextNamePrefix callback s =
     (Inr (subtreeCount, array), s)"
| "mapItems (child # rest) i subtreeCount array escapedPrefix nextNamePrefix callback s =
     (case getElementKey child i of
        Inl e \<Rightarrow> (Inl e, s)
      | Inr key \<Rightarrow>
        (let nextName = nextNamePrefix @ key in
         case mapIntoArray child array escapedPrefix nextName callback s of
           (Inl e, s') \<Rightarrow> (Inl e, s')
         | (Inr (n, array'), s') \<Rightarrow>
             mapItems rest (i + 1) (subtreeCount + n) array' escapedPrefix nextNamePrefix callback s'))"
  by pat_completeness auto
termination
proof (relation "inv_image (less_than <*lex*> less_than)
     (\<lambda>x. case x of
        Inl (children, array, p, n, cb, s) \<Rightarrow> (if cb = identityCallback then (0::nat) else 1, size children)
      | Inr (xs, i, cnt, array, p, np, cb, s) \<Rightarrow> (if cb = identityCallback then 0 else 1, size_list size xs))",
     goal_cases)
  case 1
  show ?case by (intro wf_inv_image wf_lex_prod wf_less_than)
next
  case (2 children0 array escapedPrefix nameSoFar callback s type children child r mappedChild s1 childKey escapedChildKey)
  have "callback \<noteq> identityCallback"
  proof
    assume "callback = identityCallback"
    with 2 have "mappedChild = children" by (simp add: identityCallback_def)
    with 2 show False
      by (cases children0) (auto simp: invokeCallback_def split: if_splits)
  qed
  then show ?case by simp
qed (auto split: if_splits)

declare mapIntoArray.simps [simp del]

section \<open>The public operations\<close>

text \<open>
  \<open>mapChildren\<close>: \<open>func\<close> is called with the child and the running \<open>count\<close>; the
  \<open>context\<close> it is bound to is part of \<open>func\<close> here. \<open>countingCallback func\<close> is the
  anonymous function handed to \<open>mapIntoArray\<close>; its state is \<open>count\<close> together with
  the state of \<open>func\<close>. The result is \<open>children\<close> itself when \<open>children == null\<close>,
  and the array \<open>result\<close> otherwise.
\<close>

definition countingCallback :: "(jsval \<Rightarrow> nat \<Rightarrow> 's \<Rightarrow> jsval \<times> 's) \<Rightarrow> (nat \<times> 's) callback" where
  "countingCallback func =
     (\<lambda>child (count, s). case func child count s of (r, s') \<Rightarrow> (r, (count + 1, s')))"

definition mapChildren :: "jsval \<Rightarrow> (jsval \<Rightarrow> nat \<Rightarrow> 's \<Rightarrow> jsval \<times> 's) \<Rightarrow> 's \<Rightarrow> (error + jsval) \<times> 's" where
  "mapChildren children func s =
     (if looseNull children then (Inr children, s)
      else
        (case mapIntoArray children [] [] [] (countingCallback func) (0, s) of
           (Inl e, (count, s')) \<Rightarrow> (Inl e, s')
         | (Inr (n, result), (count, s')) \<Rightarrow> (Inr (Arr NoKey result), s')))"

definition countChildren :: "jsval \<Rightarrow> error + nat" where
  "countChildren children =
     (case mapChildren children (\<lambda>child index n. (Undefined, n + 1)) 0 of
        (Inl e, n) \<Rightarrow> Inl e
      | (Inr r, n) \<Rightarrow> Inr n)"

definition forEachChildren :: "jsval \<Rightarrow> (jsval \<Rightarrow> nat \<Rightarrow> 's \<Rightarrow> jsval \<times> 's) \<Rightarrow> 's \<Rightarrow> (error + unit) \<times> 's" where
  "forEachChildren children forEachFunc s =
     (case mapChildren children (\<lambda>child index s. (Undefined, snd (forEachFunc child index s))) s of
        (Inl e, s') \<Rightarrow> (Inl e, s')
      | (Inr r, s') \<Rightarrow> (Inr (), s'))"

definition toArray :: "jsval \<Rightarrow> error + jsval" where
  "toArray children =
     (case mapChildren children (\<lambda>child index s. (child, s)) () of
        (Inl e, u) \<Rightarrow> Inl e
      | (Inr r, u) \<Rightarrow> Inr (if truthy r then r else Arr NoKey []))"

definition onlyChildMessage :: string where
  "onlyChildMessage = ''React.Children.only expected to receive a single React element child.''"

definition onlyChild :: "jsval \<Rightarrow> error + jsval" where
  "onlyChild children =
     (case invariant (isValidElement children) NotSingleElement onlyChildMessage [] of
        Inl e \<Rightarrow> Inl e
      | Inr u \<Rightarrow> Inr children)"

section \<open>Notions used to state the properties\<close>

text \<open>The value of \<open>children\<close> after the first statement of \<open>mapIntoArray\<close>.\<close>

definition normalise :: "jsval \<Rightarrow> jsval" where
  "normalise c = (if typeof c = ''undefined'' \<or> typeof c = ''boolean'' then Null else c)"

text \<open>The values for which \<open>mapIntoArray\<close> invokes the callback.\<close>

fun leafValue :: "jsval \<Rightarrow> bool" where
  "leafValue (Arr kp xs) = False"
| "leafValue (Iterable kp xs) = False"
| "leafValue (Obj kp str ks) = False"
| "leafValue (Func f) = False"
| "leafValue v = True"

text \<open>
  The leaves of a children tree, as the callback receives them, in pre-order, left
  to right: the leaves the flattener visits when nothing fails.
\<close>

fun leavesOf :: "jsval \<Rightarrow> jsval list" and leavesOfItems :: "jsval list \<Rightarrow> jsval list" where
  "leavesOf (Arr kp xs) = leavesOfItems xs"
| "leavesOf (Iterable kp xs) = leavesOfItems xs"
| "leavesOf (Obj kp str ks) = []"
| "leavesOf (Func f) = []"
| "leavesOf Undefined = [normalise Undefined]"
| "leavesOf Null = [normalise Null]"
| "leavesOf (Bool b) = [normalise (Bool b)]"
| "leavesOf (Str v) = [normalise (Str v)]"
| "leavesOf (Num v) = [normalise (Num v)]"
| "leavesOf (Leaf t k p) = [normalise (Leaf t k p)]"
| "leavesOfItems [] = []"
| "leavesOfItems (x # xs) = leavesOf x @ leavesOfItems xs"

text \<open>
  The leaves visited by a public operation: \<open>mapChildren\<close> does not start the
  flattener when \<open>children\<close> is \<open>null\<close> or \<open>undefined\<close>.
\<close>

definition visited :: "jsval \<Rightarrow> jsval list" where
  "visited T = (if looseNull T then [] else leavesOf T)"

text \<open>
  Where a traversal whose callback answers no leaf with an array stops: at the
  first child of an array or iterable, in traversal order, whose key cannot be
  converted to a string, or at the first plain object it reaches.
\<close>

datatype stop = BadKeyOf jsval | PlainObject jsval

definition badKey :: "jsval \<Rightarrow> bool" where
  "badKey x = (typeof x = ''object'' \<and> keyOf x = BadKey)"

fun firstStop :: "jsval \<Rightarrow> stop option" and firstStops :: "jsval list \<Rightarrow> stop option" where
  "firstStop (Arr kp xs) = firstStops xs"
| "firstStop (Iterable kp xs) = firstStops xs"
| "firstStop (Obj kp str ks) = Some (PlainObject (Obj kp str ks))"
| "firstStop v = None"
| "firstStops [] = None"
| "firstStops (x # xs) =
     (if badKey x then Some (BadKeyOf x)
      else (case firstStop x of Some st \<Rightarrow> Some st | None \<Rightarrow> firstStops xs))"

definition invalidChildMessage :: "string \<Rightarrow> string list \<Rightarrow> string" where
  "invalidChildMessage str ks = sprintf1 invalidChildFormat (describeObject str ks)"

text \<open>The error raised at a stop.\<close>

fun stopError :: "stop \<Rightarrow> error" where
  "stopError (BadKeyOf x) = TypeError"
| "stopError (PlainObject obj) =
     (case objectString obj of
        None \<Rightarrow> TypeError
      | Some str \<Rightarrow> InvalidChildType (invalidChildMessage str (objectKeys obj)))"


text \<open>A value without its key: what \<open>cloneAndReplaceKey\<close> leaves unchanged.\<close>

fun unkey :: "jsval \<Rightarrow> jsval" where
  "unkey (Leaf t k p) = Leaf t None p"
| "unkey v = v"

text \<open>
  The result of \<open>getElementKey\<close> when it does not fail, and names for three
  expressions of \<open>mapIntoArray\<close>.
\<close>

definition elementKey :: "jsval \<Rightarrow> nat \<Rightarrow> string" where
  "elementKey element index = (case getElementKey element index of Inl e \<Rightarrow> [] | Inr key \<Rightarrow> key)"

definition childKeyOf :: "jsval \<Rightarrow> string \<Rightarrow> string" where
  "childKeyOf child nameSoFar =
     (if nameSoFar = [] then SEPARATOR @ elementKey child 0 else nameSoFar)"

definition nextNamePrefixOf :: "string \<Rightarrow> string" where
  "nextNamePrefixOf nameSoFar = (if nameSoFar = [] then SEPARATOR else nameSoFar @ SUBSEPARATOR)"

definition pushedValue :: "jsval \<Rightarrow> jsval \<Rightarrow> string \<Rightarrow> string \<Rightarrow> jsval" where
  "pushedValue child mappedChild escapedPrefix childKey =
     (if isValidElement mappedChild then
        cloneAndReplaceKey mappedChild
          (escapedPrefix @
           (case keyOf mappedChild of
              Key key \<Rightarrow>
                (if key \<noteq> [] \<and> (\<not> truthy child \<or> keyOf child \<noteq> keyOf mappedChild)
                 then escapeUserProvidedKey key @ ''/''
                 else [])
            | NoKey \<Rightarrow> []
            | BadKey \<Rightarrow> []) @
           childKey)
      else mappedChild)"

text \<open>
  \<open>callsFrom func k s cs\<close>: \<open>func\<close> called on each value of \<open>cs\<close> in turn, with the
  indices \<open>k\<close>, \<open>k + 1\<close>, ..., each call starting from the state the one before left:
  the results and the final state.
\<close>

fun callsFrom :: "(jsval \<Rightarrow> nat \<Rightarrow> 's \<Rightarrow> jsval \<times> 's) \<Rightarrow> nat \<Rightarrow> 's \<Rightarrow> jsval list \<Rightarrow> jsval list \<times> 's" where
  "callsFrom func k s [] = ([], s)"
| "callsFrom func k s (c # cs) =
     (case func c k s of (m, s1) \<Rightarrow>
        (case callsFrom func (Suc k) s1 cs of (ms, s2) \<Rightarrow> (m # ms, s2)))"





text \<open>The two readings of \<open>escapeUserProvidedKey\<close> that are compared below.\<close>

definition doubleEverySlash :: "string \<Rightarrow> string" where
  "doubleEverySlash s = concat (map (\<lambda>c. if c = CHR ''/'' then ''//'' else [c]) s)"

fun slashAfterRun :: "string \<Rightarrow> string" where
  "slashAfterRun [] = []"
| "slashAfterRun [c] = (if c = CHR ''/'' then ''//'' else [c])"
| "slashAfterRun (c # d # cs) =
     (if c = CHR ''/'' \<and> d \<noteq> CHR ''/'' then ''//'' @ slashAfterRun (d # cs)
      else c # slashAfterRun (d # cs))"


definition logCall :: "jsval \<Rightarrow> nat \<Rightarrow> (jsval \<times> nat) list \<Rightarrow> jsval \<times> (jsval \<times> nat) list" where
  "logCall c i log = (Undefined, log @ [(c, i)])"

section \<open>Facts about the key escapers\<close>

lemma escape_body_inj:
  "concat (map (\<lambda>c. if escapeRegex c then escaperLookup c else [c]) a) =
   concat (map (\<lambda>c. if escapeRegex c then escaperLookup c else [c]) b) \<Longrightarrow> a = b"
proof (induction a arbitrary: b)
  case Nil
  then show ?case by (cases b) (auto simp: escapeRegex_def escaperLookup_def split: if_splits)
next
  case (Cons x xs)
  show ?case
  proof (cases b)
    case Nil
    with Cons.prems show ?thesis
      by (auto simp: escapeRegex_def escaperLookup_def split: if_splits)
  next
    case (Cons y ys)
    with Cons.prems have "x = y \<and> concat (map (\<lambda>c. if escapeRegex c then escaperLookup c else [c]) xs) =
        concat (map (\<lambda>c. if escapeRegex c then escaperLookup c else [c]) ys)"
      by (auto simp: escapeRegex_def escaperLookup_def split: if_splits)
    with Cons.IH Cons show ?thesis by blast
  qed
qed

lemma colon_not_in_escape: "CHR '':'' \<notin> set (escape raw)"
  by (induction raw) (auto simp: escape_def escapeRegex_def escaperLookup_def)

lemma dot_in_escape: "CHR ''.'' \<in> set (escape raw) \<longleftrightarrow> CHR ''.'' \<in> set raw"
  by (induction raw) (auto simp: escape_def escapeRegex_def escaperLookup_def)

lemma escapeUserProvidedKey_slashAfterRun: "escapeUserProvidedKey s = slashAfterRun s"
proof (induction s)
  case Nil
  then show ?case by simp
next
  case (Cons c cs)
  then show ?case by (cases cs) auto
qed

lemma escapeUserProvidedKey_run:
  "escapeUserProvidedKey (replicate (Suc k) CHR ''/'') = replicate (Suc (Suc k)) CHR ''/''"
  by (simp add: replicate_append_same)

section \<open>Facts about the traversal\<close>

lemma invokeCallback_leafValue: "invokeCallback (normalise c) (typeof c) = leafValue c"
  by (cases c) (auto simp: invokeCallback_def normalise_def split: elemType.splits)

lemma getElementKey_leaf:
  "leafValue c \<Longrightarrow> getElementKey (normalise c) i = Inr (elementKey (normalise c) i)"
  by (cases c) (auto simp: getElementKey_def elementKey_def normalise_def split: option.splits)

lemma getElementKey_badKey: "badKey x \<Longrightarrow> getElementKey x i = Inl TypeError"
  by (cases x) (auto simp: getElementKey_def badKey_def)

lemma getElementKey_goodKey: "\<not> badKey x \<Longrightarrow> getElementKey x i = Inr (elementKey x i)"
  by (cases x; cases "keyOf x")
     (auto simp: getElementKey_def elementKey_def badKey_def split: option.splits)

lemma mapIntoArray_Arr:
  "mapIntoArray (Arr kp xs) array p n cb s =
     mapItems xs 0 0 array p (nextNamePrefixOf n) cb s"
  by (simp add: mapIntoArray.simps invokeCallback_def nextNamePrefixOf_def)

lemma mapIntoArray_Iterable:
  "mapIntoArray (Iterable kp xs) array p n cb s =
     mapItems xs 0 0 array p (nextNamePrefixOf n) cb s"
  by (simp add: mapIntoArray.simps invokeCallback_def nextNamePrefixOf_def)

lemma mapIntoArray_Obj:
  "mapIntoArray (Obj kp str ks) array p n cb s =
     (Inl (stopError (PlainObject (Obj kp str ks))), s)"
  by (cases str)
     (simp_all add: mapIntoArray.simps invokeCallback_def invariant_def invalidChildMessage_def)

lemma mapIntoArray_Func:
  "mapIntoArray (Func f) array p n cb s = (Inr (0, array), s)"
  by (simp add: mapIntoArray.simps invokeCallback_def)

lemma mapItems_Cons_bad:
  "badKey x \<Longrightarrow> mapItems (x # xs) i cnt array p np cb s = (Inl TypeError, s)"
  by (simp add: getElementKey_badKey)

lemma mapItems_Cons_good:
  "\<not> badKey x \<Longrightarrow> mapItems (x # xs) i cnt array p np cb s =
     (case mapIntoArray x array p (np @ elementKey x i) cb s of
        (Inl e, s') \<Rightarrow> (Inl e, s')
      | (Inr (n, array'), s') \<Rightarrow> mapItems xs (i + 1) (cnt + n) array' p np cb s')"
  by (simp add: getElementKey_goodKey)

lemma mapIntoArray_leaf:
  assumes "leafValue c" and "cb (normalise c) s = (m, s1)"
  shows "mapIntoArray c array p n cb s =
     (if isArray m then
        (case mapIntoArray m array (escapeUserProvidedKey (childKeyOf (normalise c) n) @ ''/'') []
                identityCallback s1 of
           (Inl e, s2) \<Rightarrow> (Inl e, s2)
         | (Inr (k, array'), s2) \<Rightarrow> (Inr (1, array'), s2))
      else if \<not> looseNull m then
        (Inr (1, array @ [pushedValue (normalise c) m p (childKeyOf (normalise c) n)]), s1)
      else (Inr (1, array), s1))"
  using assms invokeCallback_leafValue [of c] getElementKey_leaf [OF assms(1), of 0]
  by (subst mapIntoArray.simps) (simp add: normalise_def childKeyOf_def pushedValue_def Let_def)

lemma mapIntoArray_leaf_case:
  assumes "leafValue c"
  shows "mapIntoArray c array p n cb s =
     (case cb (normalise c) s of (m, s1) \<Rightarrow>
      if isArray m then
        (case mapIntoArray m array (escapeUserProvidedKey (childKeyOf (normalise c) n) @ ''/'') []
                identityCallback s1 of
           (Inl e, s2) \<Rightarrow> (Inl e, s2)
         | (Inr (k, array'), s2) \<Rightarrow> (Inr (1, array'), s2))
      else if \<not> looseNull m then
        (Inr (1, array @ [pushedValue (normalise c) m p (childKeyOf (normalise c) n)]), s1)
      else (Inr (1, array), s1))"
proof -
  obtain m s1 where cb: "cb (normalise c) s = (m, s1)" by (cases "cb (normalise c) s")
  show ?thesis
    by (simp add: cb mapIntoArray_leaf [where c = c and cb = cb and s = s, OF assms cb])
qed

declare mapItems.simps(2) [simp del]

lemma isArray_leafValue: "leafValue c \<Longrightarrow> \<not> isArray (normalise c)"
  by (cases c) (auto simp: normalise_def)

lemma unkey_pushedValue: "unkey (pushedValue c m p k) = unkey m"
  by (cases m) (auto simp: pushedValue_def isValidElement_def)

lemma mapIntoArray_leaf_id:
  assumes "leafValue c"
  shows "mapIntoArray c array p n identityCallback s =
     (if normalise c = Null then (Inr (1, array), s)
      else (Inr (1, array @ [pushedValue (normalise c) (normalise c) p (childKeyOf (normalise c) n)]), s))"
  using assms isArray_leafValue [OF assms]
  by (subst mapIntoArray_leaf [where m = "normalise c" and ?s1.0 = s])
     (cases c; auto simp: identityCallback_def looseNull_def normalise_def)+

lemma firstStops_None:
  "firstStops (x # xs) = None \<longleftrightarrow> \<not> badKey x \<and> firstStop x = None \<and> firstStops xs = None"
  by (auto split: option.splits)

lemma id_ok:
  "firstStop T = None \<Longrightarrow>
     \<exists>out. mapIntoArray T array p n identityCallback s = (Inr (length (leavesOf T), array @ out), s)
          \<and> map unkey out = map unkey (filter (\<lambda>v. v \<noteq> Null) (leavesOf T))"
  "firstStops xs = None \<Longrightarrow>
     \<exists>out. mapItems xs i cnt array p np identityCallback s =
            (Inr (cnt + length (leavesOfItems xs), array @ out), s)
          \<and> map unkey out = map unkey (filter (\<lambda>v. v \<noteq> Null) (leavesOfItems xs))"
proof (induction T and xs arbitrary: array p n s and i cnt array p np s
       rule: leavesOf_leavesOfItems.induct)
  case (1 kp xs)
  from "1.IH" [OF "1.prems" [simplified], of 0 0 array p "nextNamePrefixOf n" s]
  show ?case by (simp add: mapIntoArray_Arr)
next
  case (2 kp xs)
  from "2.IH" [OF "2.prems" [simplified], of 0 0 array p "nextNamePrefixOf n" s]
  show ?case by (simp add: mapIntoArray_Iterable)
next
  case (3 kp str ks)
  then show ?case by simp
next
  case (4 f)
  then show ?case by (simp add: mapIntoArray_Func)
next
  case 5
  then show ?case by (simp add: mapIntoArray_leaf_id unkey_pushedValue normalise_def)
next
  case 6
  then show ?case by (simp add: mapIntoArray_leaf_id unkey_pushedValue normalise_def)
next
  case (7 b)
  then show ?case by (simp add: mapIntoArray_leaf_id unkey_pushedValue normalise_def)
next
  case (8 v)
  then show ?case by (simp add: mapIntoArray_leaf_id unkey_pushedValue normalise_def)
next
  case (9 v)
  then show ?case by (simp add: mapIntoArray_leaf_id unkey_pushedValue normalise_def)
next
  case (10 t k pl)
  then show ?case by (simp add: mapIntoArray_leaf_id unkey_pushedValue normalise_def)
next
  case 11
  then show ?case by simp
next
  case (12 x xs)
  from "12.prems" have gk: "\<not> badKey x" and fx: "firstStop x = None" and fxs: "firstStops xs = None"
    by (auto split: if_splits option.splits)
  from "12.IH"(1) [OF fx, of array p "np @ elementKey x i" s]
  obtain out1 where
    o1: "mapIntoArray x array p (np @ elementKey x i) identityCallback s =
           (Inr (length (leavesOf x), array @ out1), s)"
    and u1: "map unkey out1 = map unkey (filter (\<lambda>v. v \<noteq> Null) (leavesOf x))"
    by blast
  from "12.IH"(2) [OF fxs, of "i + 1" "cnt + length (leavesOf x)" "array @ out1" p np s]
  obtain out2 where
    o2: "mapItems xs (i + 1) (cnt + length (leavesOf x)) (array @ out1) p np identityCallback s =
           (Inr (cnt + length (leavesOf x) + length (leavesOfItems xs), (array @ out1) @ out2), s)"
    and u2: "map unkey out2 = map unkey (filter (\<lambda>v. v \<noteq> Null) (leavesOfItems xs))"
    by blast
  from o2 show ?case
    by (intro exI [of _ "out1 @ out2"]) (simp add: mapItems_Cons_good [OF gk] o1 u1 u2)
qed

lemma id_fail:
  "firstStop T = Some st \<Longrightarrow>
     mapIntoArray T array p n identityCallback s = (Inl (stopError st), s)"
  "firstStops xs = Some st \<Longrightarrow>
     mapItems xs i cnt array p np identityCallback s = (Inl (stopError st), s)"
proof (induction T and xs arbitrary: array p n s and i cnt array p np s
       rule: leavesOf_leavesOfItems.induct)
  case (3 kp str ks)
  then show ?case by (auto simp: mapIntoArray_Obj)
next
  case (12 x xs)
  show ?case
  proof (cases "badKey x")
    case True
    with "12.prems" show ?thesis by (auto simp: mapItems_Cons_bad)
  next
    case gk: False
    show ?thesis
    proof (cases "firstStop x")
      case None
      with "12.prems" gk have fxs: "firstStops xs = Some st" by simp
      from id_ok(1) [OF None, of array p "np @ elementKey x i" s]
      obtain out1 where
        o1: "mapIntoArray x array p (np @ elementKey x i) identityCallback s =
               (Inr (length (leavesOf x), array @ out1), s)"
        by blast
      show ?thesis
        by (simp add: mapItems_Cons_good [OF gk] o1 "12.IH"(2) [OF fxs])
    next
      case (Some a)
      with "12.prems" gk have "firstStop x = Some st" by simp
      from "12.IH"(1) [OF this] show ?thesis by (simp add: mapItems_Cons_good [OF gk])
    qed
  qed
qed (auto simp: mapIntoArray_Arr mapIntoArray_Iterable)

lemma id_state: "snd (mapIntoArray T array p n identityCallback s) = s"
proof (cases "firstStop T")
  case None
  from id_ok(1) [OF None, of array p n s] show ?thesis by auto
next
  case (Some st)
  from id_fail(1) [OF Some, of array p n s] show ?thesis by simp
qed




lemma callsFrom_append:
  "callsFrom func k s (xs @ ys) =
     (case callsFrom func k s xs of (a, s1) \<Rightarrow>
        (case callsFrom func (k + length xs) s1 ys of (b, s2) \<Rightarrow> (a @ b, s2)))"
  by (induction xs arbitrary: k s) (auto split: prod.splits)

lemma counted_run:
  assumes na: "\<And>c k s. leafValue c \<Longrightarrow> \<not> isArray (fst (func (normalise c) k s))"
  shows "firstStop T = None \<Longrightarrow>
     \<exists>out. mapIntoArray T array p n (countingCallback func) (k, s) =
              (Inr (length (leavesOf T), array @ out),
               (k + length (leavesOf T), snd (callsFrom func k s (leavesOf T))))
          \<and> map unkey out =
              map unkey (filter (\<lambda>m. \<not> looseNull m) (fst (callsFrom func k s (leavesOf T))))"
    and "firstStops xs = None \<Longrightarrow>
     \<exists>out. mapItems xs i cnt array p np (countingCallback func) (k, s) =
              (Inr (cnt + length (leavesOfItems xs), array @ out),
               (k + length (leavesOfItems xs), snd (callsFrom func k s (leavesOfItems xs))))
          \<and> map unkey out =
              map unkey (filter (\<lambda>m. \<not> looseNull m) (fst (callsFrom func k s (leavesOfItems xs))))"
proof (induction T and xs arbitrary: array p n k s and i cnt array p np k s
       rule: leavesOf_leavesOfItems.induct)
  case (1 kp xs)
  from "1.IH" [OF "1.prems" [simplified], of 0 0 array p "nextNamePrefixOf n" k s]
  show ?case by (simp add: mapIntoArray_Arr)
next
  case (2 kp xs)
  from "2.IH" [OF "2.prems" [simplified], of 0 0 array p "nextNamePrefixOf n" k s]
  show ?case by (simp add: mapIntoArray_Iterable)
next
  case (3 kp str ks)
  then show ?case by simp
next
  case (4 f)
  then show ?case by (simp add: mapIntoArray_Func)
next
  case 5
  from na [of Undefined k s] show ?case
    by (auto simp: mapIntoArray_leaf_case countingCallback_def unkey_pushedValue split: prod.splits)
next
  case 6
  from na [of Null k s] show ?case
    by (auto simp: mapIntoArray_leaf_case countingCallback_def unkey_pushedValue split: prod.splits)
next
  case (7 b)
  from na [of "Bool b" k s] show ?case
    by (auto simp: mapIntoArray_leaf_case countingCallback_def unkey_pushedValue split: prod.splits)
next
  case (8 v)
  from na [of "Str v" k s] show ?case
    by (auto simp: mapIntoArray_leaf_case countingCallback_def unkey_pushedValue split: prod.splits)
next
  case (9 v)
  from na [of "Num v" k s] show ?case
    by (auto simp: mapIntoArray_leaf_case countingCallback_def unkey_pushedValue split: prod.splits)
next
  case (10 t ky pl)
  from na [of "Leaf t ky pl" k s] show ?case
    by (auto simp: mapIntoArray_leaf_case countingCallback_def unkey_pushedValue split: prod.splits)
next
  case 11
  then show ?case by simp
next
  case (12 x xs)
  from "12.prems" have gk: "\<not> badKey x" and fx: "firstStop x = None" and fxs: "firstStops xs = None"
    by (auto split: if_splits option.splits)
  let ?lx = "leavesOf x"
  obtain a s1 where cx: "callsFrom func k s ?lx = (a, s1)" by (cases "callsFrom func k s ?lx")
  obtain b s2 where cxs: "callsFrom func (k + length ?lx) s1 (leavesOfItems xs) = (b, s2)"
    by (cases "callsFrom func (k + length ?lx) s1 (leavesOfItems xs)")
  from "12.IH"(1) [OF fx, of array p "np @ elementKey x i" k s]
  obtain out1 where
    o1: "mapIntoArray x array p (np @ elementKey x i) (countingCallback func) (k, s) =
           (Inr (length ?lx, array @ out1), (k + length ?lx, s1))"
    and u1: "map unkey out1 = map unkey (filter (\<lambda>m. \<not> looseNull m) a)"
    by (auto simp: cx)
  from "12.IH"(2) [OF fxs, of "i + 1" "cnt + length ?lx" "array @ out1" p np "k + length ?lx" s1]
  obtain out2 where
    o2: "mapItems xs (i + 1) (cnt + length ?lx) (array @ out1) p np (countingCallback func)
           (k + length ?lx, s1) =
           (Inr (cnt + length ?lx + length (leavesOfItems xs), (array @ out1) @ out2),
            (k + length ?lx + length (leavesOfItems xs), s2))"
    and u2: "map unkey out2 = map unkey (filter (\<lambda>m. \<not> looseNull m) b)"
    by (auto simp: cxs)
  from o2 show ?case
    by (intro exI [of _ "out1 @ out2"])
       (simp add: mapItems_Cons_good [OF gk] o1 u1 u2 callsFrom_append cx cxs)
qed

lemma counted_fail:
  assumes na: "\<And>c k s. leafValue c \<Longrightarrow> \<not> isArray (fst (func (normalise c) k s))"
  shows "firstStop T = Some st \<Longrightarrow>
     fst (mapIntoArray T array p n (countingCallback func) (k, s)) = Inl (stopError st)"
    and "firstStops xs = Some st \<Longrightarrow>
     fst (mapItems xs i cnt array p np (countingCallback func) (k, s)) = Inl (stopError st)"
proof (induction T and xs arbitrary: array p n k s and i cnt array p np k s
       rule: leavesOf_leavesOfItems.induct)
  case (3 kp str ks)
  then show ?case by (auto simp: mapIntoArray_Obj)
next
  case (12 x xs)
  show ?case
  proof (cases "badKey x")
    case True
    with "12.prems" show ?thesis by (auto simp: mapItems_Cons_bad)
  next
    case gk: False
    show ?thesis
    proof (cases "firstStop x")
      case None
      with "12.prems" gk have fxs: "firstStops xs = Some st" by simp
      from counted_run(1) [of func, OF na None, of array p "np @ elementKey x i" k s]
      obtain out1 s1 where
        o1: "mapIntoArray x array p (np @ elementKey x i) (countingCallback func) (k, s) =
               (Inr (length (leavesOf x), array @ out1), (k + length (leavesOf x), s1))"
        by blast
      show ?thesis
        by (simp add: mapItems_Cons_good [OF gk] o1 "12.IH"(2) [OF fxs])
    next
      case (Some a)
      with "12.prems" gk have fx: "firstStop x = Some st" by simp
      obtain r st' where r: "mapIntoArray x array p (np @ elementKey x i) (countingCallback func) (k, s) = (r, st')"
        by (cases "mapIntoArray x array p (np @ elementKey x i) (countingCallback func) (k, s)")
      with "12.IH"(1) [OF fx, of array p "np @ elementKey x i" k s]
      show ?thesis by (simp add: mapItems_Cons_good [OF gk])
    qed
  qed
qed (auto simp: mapIntoArray_Arr mapIntoArray_Iterable)

lemma callsFrom_echo: "callsFrom (\<lambda>child index s. (child, s)) k s cs = (cs, s)"
  by (induction cs arbitrary: k) auto

lemma callsFrom_count: "snd (callsFrom (\<lambda>child index n. (Undefined, n + 1)) k n cs) = n + length cs"
  by (induction cs arbitrary: k n) (simp_all add: case_prod_unfold)

lemma callsFrom_forEach:
  "snd (callsFrom (\<lambda>child index s. (Undefined, snd (f child index s))) k s cs) =
   snd (callsFrom f k s cs)"
  by (induction cs arbitrary: k s) (simp_all add: case_prod_unfold)

lemma leaves_defined:
  "Undefined \<notin> set (leavesOf T)"
  "Undefined \<notin> set (leavesOfItems xs)"
  by (induction T and xs rule: leavesOf_leavesOfItems.induct) (auto simp: normalise_def)

lemma filter_leaves:
  "filter (\<lambda>m. \<not> looseNull m) (leavesOf T) = filter (\<lambda>v. v \<noteq> Null) (leavesOf T)"
  using leaves_defined(1) [of T]
  by (intro filter_cong) (auto simp: looseNull_def)

lemma firstStop_looseNull: "firstStop T = Some st \<Longrightarrow> \<not> looseNull T"
  by (auto simp: looseNull_def)

lemma mapChildren_ok:
  assumes na: "\<And>c k s. leafValue c \<Longrightarrow> \<not> isArray (fst (func (normalise c) k s))"
    and fi: "firstStop T = None" and nn: "\<not> looseNull T"
  shows "\<exists>out. mapChildren T func s = (Inr (Arr NoKey out), snd (callsFrom func 0 s (leavesOf T))) \<and>
      map unkey out = map unkey (filter (\<lambda>m. \<not> looseNull m) (fst (callsFrom func 0 s (leavesOf T))))"
  using counted_run(1) [of func, OF na fi, of "[]" "[]" "[]" 0 s] nn
  by (auto simp: mapChildren_def)

lemma mapChildren_error:
  assumes "\<not> looseNull T"
    and "fst (mapIntoArray T [] [] [] (countingCallback func) (0, s)) = Inl e"
  shows "fst (mapChildren T func s) = Inl e"
proof -
  obtain r k' s' where r: "mapIntoArray T [] [] [] (countingCallback func) (0, s) = (r, (k', s'))"
    by (cases "mapIntoArray T [] [] [] (countingCallback func) (0, s)") auto
  with assms show ?thesis by (simp add: mapChildren_def)
qed

lemma mapChildren_fail:
  assumes na: "\<And>c k s. leafValue c \<Longrightarrow> \<not> isArray (fst (func (normalise c) k s))"
    and fi: "firstStop T = Some st"
  shows "fst (mapChildren T func s) = Inl (stopError st)"
  by (rule mapChildren_error [OF firstStop_looseNull [OF fi]
        counted_fail(1) [of func, OF na fi, of "[]" "[]" "[]" 0 s]])


lemma toArray_fail:
  assumes "firstStop T = Some st"
  shows "toArray T = Inl (stopError st)"
proof -
  have "fst (mapChildren T (\<lambda>child index s. (child, s)) ()) = Inl (stopError st)"
    by (rule mapChildren_fail) (simp_all add: assms isArray_leafValue)
  then show ?thesis
    by (cases "mapChildren T (\<lambda>child index s. (child, s)) ()") (simp add: toArray_def)
qed

lemma toArray_Inr_valid:
  assumes "toArray T = Inr r" and "\<not> looseNull T"
  shows "firstStop T = None"
proof (cases "firstStop T")
  case (Some st)
  from toArray_fail [OF Some] assms show ?thesis by simp
qed simp

lemma mapChildren_single_state:
  assumes "leafValue c" and "\<not> looseNull c"
  shows "snd (mapChildren c func s) = snd (func (normalise c) 0 s)"
proof -
  obtain m s' where f: "func (normalise c) 0 s = (m, s')" by (cases "func (normalise c) 0 s")
  let ?r = "mapIntoArray m [] (escapeUserProvidedKey (childKeyOf (normalise c) []) @ ''/'') []
              identityCallback (Suc 0, s')"
  obtain res st where r: "?r = (res, st)" by (cases ?r)
  with id_state [of m "[]" "escapeUserProvidedKey (childKeyOf (normalise c) []) @ ''/''" "[]" "(Suc 0, s')"]
  have st: "st = (Suc 0, s')" by simp
  show ?thesis
    using assms
    by (cases res)
       (auto simp: mapChildren_def mapIntoArray_leaf_case countingCallback_def f r st
             split: prod.splits)
qed

lemma forEachChildren_state:
  "snd (forEachChildren c f s) =
     snd (mapChildren c (\<lambda>child index s. (Undefined, snd (f child index s))) s)"
  by (simp add: forEachChildren_def split: prod.splits sum.splits)







lemma sprintf1_onlyChildMessage: "sprintf1 onlyChildMessage arg = onlyChildMessage"
  by (simp add: onlyChildMessage_def)

lemmas evals = mapIntoArray_leaf_case mapIntoArray_Arr mapIntoArray_Iterable mapIntoArray_Obj
  mapIntoArray_Func mapItems.simps normalise_def childKeyOf_def elementKey_def nextNamePrefixOf_def
  pushedValue_def getElementKey_def escape_def escapeRegex_def escaperLookup_def SEPARATOR_def
  SUBSEPARATOR_def isValidElement_def looseNull_def identityCallback_def countingCallback_def
  toString36.simps [of 0] toString36.simps [of 1] toString36.simps [of "Suc 0"] digit36_def

section \<open>Properties of the key escapers\<close>

text \<open>
  C6. \<open>escape\<close> is injective: two distinct raw keys never have the same escaped
  form, where \<open>escape\<close> replaces every \<open>=\<close> with \<open>=0\<close> and every \<open>:\<close> with \<open>=2\<close>
  and then prefixes the result with \<open>$\<close>.
\<close>

theorem escape_injective:
  assumes "a \<noteq> b"
  shows "escape a \<noteq> escape b \<and>
    escape a = CHR ''$'' #
      concat (map (\<lambda>c. if c = CHR ''='' then ''=0'' else if c = CHR '':'' then ''=2'' else [c]) a)"
proof -
  have "(\<lambda>c. if escapeRegex c then escaperLookup c else [c]) =
        (\<lambda>c. if c = CHR ''='' then ''=0'' else if c = CHR '':'' then ''=2'' else [c])"
    by (auto simp: escapeRegex_def escaperLookup_def)
  then show ?thesis
    using assms escape_body_inj [of a b] by (auto simp: escape_def)
qed

theorem escape_injective_witness:
  "''a:b'' \<noteq> ''a=2b'' \<and> escape ''a:b'' \<noteq> escape ''a=2b'' \<and> escape ''a:b'' = ''$a=2b''"
proof -
  have ne: "''a:b'' \<noteq> ''a=2b''" by simp
  from escape_injective [OF ne] have "escape ''a:b'' \<noteq> escape ''a=2b''" by blast
  moreover from escape_injective [OF ne] have "escape ''a:b'' = ''$a=2b''" by simp
  ultimately show ?thesis using ne by blast
qed

text \<open>
  C4, as stated, fails: \<open>escape\<close> leaves the primary separator \<open>.\<close> as it is, so
  the escaped form of \<open>a.b\<close> contains an unescaped \<open>.\<close>.
\<close>

theorem escape_keeps_separator:
  "escape ''a.b'' = ''$a.b'' \<and> CHR ''.'' \<in> set (escape ''a.b'')"
  by (simp add: escape_def escapeRegex_def escaperLookup_def)

text \<open>
  C4, amended. For every raw key, the escaped form never contains the secondary
  separator \<open>:\<close>; the primary separator \<open>.\<close> is not escaped: it occurs in the
  escaped form exactly when it occurs in the raw key.
\<close>

theorem escape_no_subseparator:
  "CHR '':'' \<notin> set (escape raw) \<and> (CHR ''.'' \<in> set (escape raw) \<longleftrightarrow> CHR ''.'' \<in> set raw)"
  using colon_not_in_escape [of raw] dot_in_escape [of raw] by simp

theorem escape_no_subseparator_witness:
  "CHR '':'' \<notin> set (escape ''a:b.c'') \<and> CHR ''.'' \<in> set (escape ''a:b.c'')"
  using escape_no_subseparator [of "''a:b.c''"] by simp

text \<open>
  C3, as stated, fails: on \<open>a//b\<close> the code answers \<open>a///b\<close>, while replacing each
  \<open>/\<close> with \<open>//\<close> gives \<open>a////b\<close>.
\<close>

theorem escapeUserProvidedKey_not_doubling:
  "escapeUserProvidedKey ''a//b'' = ''a///b'' \<and> doubleEverySlash ''a//b'' = ''a////b''"
  by (simp add: doubleEverySlash_def)

text \<open>
  C3, amended. For every input string, \<open>escapeUserProvidedKey\<close> inserts one \<open>/\<close>
  after each run of \<open>/\<close> characters, that is after each \<open>/\<close> that is not followed
  by another \<open>/\<close>: a run of \<open>k + 1\<close> slashes becomes a run of \<open>k + 2\<close>.
\<close>

theorem escapeUserProvidedKey_slash_after_run:
  "escapeUserProvidedKey s = slashAfterRun s \<and>
   escapeUserProvidedKey (replicate (Suc k) CHR ''/'') = replicate (Suc (Suc k)) CHR ''/''"
  using escapeUserProvidedKey_slashAfterRun [of s] escapeUserProvidedKey_run [of k] by simp

theorem escapeUserProvidedKey_slash_after_run_witness:
  "escapeUserProvidedKey ''a/b//c'' = ''a//b///c'' \<and> slashAfterRun ''a/b//c'' = ''a//b///c'' \<and>
   escapeUserProvidedKey ''///'' = ''////''"
  using escapeUserProvidedKey_slash_after_run [of "''a/b//c''" 2] by simp

section \<open>The singleton validator\<close>

text \<open>
  C5, as stated, fails: \<open>onlyChild\<close> looks at \<open>children\<close> itself and does not
  flatten it, so an array holding one leaf is rejected.
\<close>

theorem onlyChild_singleton_array_fails:
  "onlyChild (Arr NoKey [Leaf REACT_ELEMENT_TYPE None ''A'']) = Inl (NotSingleElement onlyChildMessage)"
  by (simp add: onlyChild_def invariant_def isValidElement_def sprintf1_onlyChildMessage)

text \<open>
  C5, amended. \<open>onlyChild children\<close> returns \<open>children\<close> unchanged when
  \<open>children\<close> is itself one Leaf value, and fails with NotSingleElement otherwise;
  in particular it fails for every array, also for an array of one leaf.
\<close>

theorem onlyChild_valid_element:
  "onlyChild children =
     (if isValidElement children then Inr children else Inl (NotSingleElement onlyChildMessage)) \<and>
   (isValidElement children \<longleftrightarrow> (\<exists>t k p. children = Leaf t k p))"
  by (cases children)
     (simp_all add: onlyChild_def invariant_def isValidElement_def sprintf1_onlyChildMessage)

theorem onlyChild_valid_element_witness:
  "onlyChild (Leaf REACT_ELEMENT_TYPE (Some ''x'') ''A'') =
     Inr (Leaf REACT_ELEMENT_TYPE (Some ''x'') ''A'') \<and>
   onlyChild (Arr NoKey [Leaf REACT_ELEMENT_TYPE None ''A'', Leaf REACT_ELEMENT_TYPE None ''B'']) =
     Inl (NotSingleElement onlyChildMessage) \<and>
   onlyChild (Arr NoKey []) = Inl (NotSingleElement onlyChildMessage)"
  using onlyChild_valid_element [of "Leaf REACT_ELEMENT_TYPE (Some ''x'') ''A''"]
    onlyChild_valid_element
      [of "Arr NoKey [Leaf REACT_ELEMENT_TYPE None ''A'', Leaf REACT_ELEMENT_TYPE None ''B'']"]
    onlyChild_valid_element [of "Arr NoKey []"]
  by (simp add: isValidElement_def)

section \<open>Properties of the traversal\<close>

text \<open>
  C10. When the callback answers a leaf with a value that is not \<open>null\<close> or
  \<open>undefined\<close> (the test \<open>mappedChild != null\<close>), not an array and not a
  recognised Leaf, the flattener appends that very value to the accumulator and
  reports one visited leaf: no clone, no new key, no error.
\<close>

theorem callback_plain_value_pushed:
  assumes "invokeCallback (normalise c) (typeof c)"
    and "callback (normalise c) s = (m, s1)"
    and "\<not> looseNull m" and "\<not> isArray m" and "\<not> isValidElement m"
  shows "mapIntoArray c array escapedPrefix nameSoFar callback s = (Inr (1, array @ [m]), s1)"
  using assms by (simp add: invokeCallback_leafValue mapIntoArray_leaf_case pushedValue_def)

theorem callback_plain_value_pushed_witness:
  "invokeCallback (normalise (Str ''a'')) (typeof (Str ''a'')) \<and>
   \<not> looseNull (Obj NoKey (Some ''[object Object]'') [''a'']) \<and>
   \<not> isArray (Obj NoKey (Some ''[object Object]'') [''a'']) \<and>
   \<not> isValidElement (Obj NoKey (Some ''[object Object]'') [''a'']) \<and>
   mapIntoArray (Str ''a'') [Num 7] ''p/'' ''.0''
     (\<lambda>c s. (Obj NoKey (Some ''[object Object]'') [''a''], Suc s)) (0::nat) =
     (Inr (1, [Num 7, Obj NoKey (Some ''[object Object]'') [''a'']]), 1)"
  using callback_plain_value_pushed
    [of "Str ''a''" "\<lambda>c s. (Obj NoKey (Some ''[object Object]'') [''a''], Suc s)"
      "0::nat" "Obj NoKey (Some ''[object Object]'') [''a'']" 1 "[Num 7]" "''p/''" "''.0''"]
  by (simp add: invokeCallback_def normalise_def looseNull_def isValidElement_def)



text \<open>
  C9. A boolean \<open>children\<close> is normalised to \<open>null\<close> and handled as one
  \<open>null\<close> leaf: \<open>mapChildren\<close> and \<open>forEachChildren\<close> leave the state that one
  call of the function on \<open>null\<close> with index \<open>0\<close> leaves, \<open>countChildren\<close> returns
  \<open>1\<close> and \<open>toArray\<close> the empty array. For \<open>null\<close> and \<open>undefined\<close> the function
  is not called (the state is unchanged, \<open>children\<close> is returned) and the count is \<open>0\<close>.
\<close>

theorem boolean_children_single_null_leaf:
  "snd (mapChildren (Bool b) func s) = snd (func Null 0 s) \<and>
   snd (forEachChildren (Bool b) func s) = snd (func Null 0 s) \<and>
   visited (Bool b) = [Null] \<and>
   countChildren (Bool b) = Inr 1 \<and>
   toArray (Bool b) = Inr (Arr NoKey []) \<and>
   mapChildren Null func s = (Inr Null, s) \<and>
   mapChildren Undefined func s = (Inr Undefined, s) \<and>
   countChildren Null = Inr 0 \<and>
   countChildren Undefined = Inr 0"
proof -
  have 1: "snd (mapChildren (Bool b) func s) = snd (func Null 0 s)"
    using mapChildren_single_state [of "Bool b" func s] by (simp add: looseNull_def normalise_def)
  have 2: "snd (forEachChildren (Bool b) func s) = snd (func Null 0 s)"
    using mapChildren_single_state
      [of "Bool b" "\<lambda>child index s. (Undefined, snd (func child index s))" s]
    by (simp add: forEachChildren_state looseNull_def normalise_def)
  have 3: "visited (Bool b) = [Null]"
    by (simp add: visited_def looseNull_def normalise_def)
  have 4: "countChildren (Bool b) = Inr 1"
    by (simp add: countChildren_def mapChildren_def evals)
  have 5: "toArray (Bool b) = Inr (Arr NoKey [])"
    by (simp add: toArray_def mapChildren_def evals)
  have 6: "mapChildren Null func s = (Inr Null, s)" "mapChildren Undefined func s = (Inr Undefined, s)"
    by (simp_all add: mapChildren_def looseNull_def)
  have 7: "countChildren Null = Inr 0" "countChildren Undefined = Inr 0"
    by (simp_all add: countChildren_def mapChildren_def looseNull_def)
  from 1 2 3 4 5 6 7 show ?thesis by simp
qed

theorem boolean_children_single_null_leaf_witness:
  "snd (mapChildren (Bool True) logCall []) = [(Null, 0)] \<and>
   countChildren (Bool True) = Inr 1 \<and> toArray (Bool True) = Inr (Arr NoKey []) \<and>
   mapChildren Null logCall [] = (Inr Null, []) \<and> countChildren Undefined = Inr 0"
  using boolean_children_single_null_leaf [of True logCall "[]"]
  by (simp add: logCall_def)

text \<open>
  C8. A leaf passed as the whole \<open>children\<close> gets the key made of the primary
  separator and \<open>getElementKey child 0\<close>, the key it gets as the only element of an
  array: \<open>toArray leaf\<close> and \<open>toArray [leaf]\<close> are equal.
\<close>

theorem lone_leaf_keyed_as_wrapped:
  assumes "invokeCallback (normalise c) (typeof c)"
  shows "toArray c = toArray (Arr kp [c]) \<and>
    (\<forall>t k pl. c = Leaf t k pl \<longrightarrow>
       (\<exists>key. getElementKey c 0 = Inr key \<and>
          toArray c = Inr (Arr NoKey [Leaf t (Some (SEPARATOR @ key)) pl])))"
proof -
  from assms have "leafValue c" by (simp add: invokeCallback_leafValue)
  then show ?thesis
  by (cases c)
     (auto simp: toArray_def mapChildren_def mapIntoArray_leaf_case mapItems.simps
        mapIntoArray_Arr normalise_def childKeyOf_def elementKey_def nextNamePrefixOf_def
        pushedValue_def getElementKey_def isValidElement_def looseNull_def countingCallback_def
        SEPARATOR_def split: option.splits)
qed

theorem lone_leaf_keyed_as_wrapped_witness:
  "invokeCallback (normalise (Leaf REACT_ELEMENT_TYPE (Some ''x'') ''A''))
     (typeof (Leaf REACT_ELEMENT_TYPE (Some ''x'') ''A'')) \<and>
   toArray (Leaf REACT_ELEMENT_TYPE (Some ''x'') ''A'') =
     toArray (Arr NoKey [Leaf REACT_ELEMENT_TYPE (Some ''x'') ''A'']) \<and>
   toArray (Leaf REACT_ELEMENT_TYPE (Some ''x'') ''A'') =
     Inr (Arr NoKey [Leaf REACT_ELEMENT_TYPE (Some ''.$x'') ''A''])"
proof -
  let ?A = "Leaf REACT_ELEMENT_TYPE (Some ''x'') ''A''"
  have h: "invokeCallback (normalise ?A) (typeof ?A)"
    by (simp add: invokeCallback_def normalise_def)
  have k: "getElementKey ?A 0 = Inr ''$x''"
    by (simp add: getElementKey_def escape_def escapeRegex_def)
  from lone_leaf_keyed_as_wrapped [OF h, of NoKey]
  have a: "toArray ?A = toArray (Arr NoKey [?A])"
    and "\<exists>key. getElementKey ?A 0 = Inr key \<and>
          toArray ?A = Inr (Arr NoKey [Leaf REACT_ELEMENT_TYPE (Some (SEPARATOR @ key)) ''A''])"
    by blast+
  with k have "toArray ?A = Inr (Arr NoKey [Leaf REACT_ELEMENT_TYPE (Some (SEPARATOR @ ''$x'')) ''A''])"
    by auto
  then have b: "toArray ?A = Inr (Arr NoKey [Leaf REACT_ELEMENT_TYPE (Some ''.$x'') ''A''])"
    by (simp add: SEPARATOR_def)
  show ?thesis by (intro conjI) (rule h a b)+
qed

text \<open>
  C1, as stated, fails: in the array of \<open>null\<close> and the string \<open>a\<close> the flattener
  visits two leaves and \<open>countChildren\<close> returns \<open>2\<close>, but \<open>toArray\<close> has one
  entry, since a leaf mapped to \<open>null\<close> is not pushed.
\<close>

theorem count_toArray_length_counterexample:
  "visited (Arr NoKey [Null, Str ''a'']) = [Null, Str ''a''] \<and>
   countChildren (Arr NoKey [Null, Str ''a'']) = Inr 2 \<and>
   toArray (Arr NoKey [Null, Str ''a'']) = Inr (Arr NoKey [Str ''a''])"
  by (simp add: visited_def countChildren_def toArray_def mapChildren_def evals)

text \<open>
  C1, amended. For every children tree \<open>T\<close> on which the traversal does not fail,
  with \<open>n\<close> the number of leaves the flattener visits: \<open>countChildren T\<close> is \<open>n\<close>
  (the number the flattener itself returns); \<open>forEachChildren T fn\<close> calls \<open>fn\<close>
  exactly on the visited leaves, in order, with the indices \<open>0\<close> to \<open>n - 1\<close>; and the
  entries of \<open>toArray T\<close> are the visited leaves that are not \<open>null\<close>, in the same
  order and up to their keys, so its length is the number of those leaves.
\<close>

theorem count_forEach_toArray_agree:
  assumes "toArray T = Inr r"
  shows "countChildren T = Inr (length (visited T)) \<and>
    (\<not> looseNull T \<longrightarrow>
       (\<exists>arr. mapIntoArray T array p nm identityCallback s0 = (Inr (length (visited T), arr), s0))) \<and>
    forEachChildren T fn s = (Inr (), snd (callsFrom fn 0 s (visited T))) \<and>
    (\<exists>out. r = Arr NoKey out \<and>
       map unkey out = map unkey (filter (\<lambda>v. v \<noteq> Null) (visited T)) \<and>
       length out = length (filter (\<lambda>v. v \<noteq> Null) (visited T)))"
proof (cases "looseNull T")
  case True
  with assms show ?thesis
    by (auto simp: visited_def countChildren_def forEachChildren_def toArray_def mapChildren_def
        looseNull_def)
next
  case False
  from toArray_Inr_valid [OF assms False] have fi: "firstStop T = None" .
  have "\<exists>out. mapChildren T (\<lambda>child index n. (Undefined, n + 1)) (0::nat) =
        (Inr (Arr NoKey out), snd (callsFrom (\<lambda>child index n. (Undefined, n + 1)) 0 0 (leavesOf T))) \<and>
      map unkey out = map unkey (filter (\<lambda>m. \<not> looseNull m)
        (fst (callsFrom (\<lambda>child index n. (Undefined, n + 1)) 0 (0::nat) (leavesOf T))))"
    by (rule mapChildren_ok) (simp_all add: fi False)
  then have c: "countChildren T = Inr (length (visited T))"
    using False callsFrom_count [of 0 0 "leavesOf T"] by (auto simp: countChildren_def visited_def)
  have "\<exists>out. mapChildren T (\<lambda>child index s. (Undefined, snd (fn child index s))) s =
        (Inr (Arr NoKey out),
         snd (callsFrom (\<lambda>child index s. (Undefined, snd (fn child index s))) 0 s (leavesOf T))) \<and>
      map unkey out = map unkey (filter (\<lambda>m. \<not> looseNull m)
        (fst (callsFrom (\<lambda>child index s. (Undefined, snd (fn child index s))) 0 s (leavesOf T))))"
    by (rule mapChildren_ok) (simp_all add: fi False)
  then have f: "forEachChildren T fn s = (Inr (), snd (callsFrom fn 0 s (visited T)))"
    using False by (auto simp: forEachChildren_def visited_def callsFrom_forEach)
  have "\<exists>out. mapChildren T (\<lambda>child index s. (child, s)) () =
        (Inr (Arr NoKey out), snd (callsFrom (\<lambda>child index s. (child, s)) 0 () (leavesOf T))) \<and>
      map unkey out = map unkey (filter (\<lambda>m. \<not> looseNull m)
        (fst (callsFrom (\<lambda>child index s. (child, s)) 0 () (leavesOf T))))"
    by (rule mapChildren_ok) (simp_all add: fi False isArray_leafValue)
  then obtain out where o: "mapChildren T (\<lambda>child index s. (child, s)) () = (Inr (Arr NoKey out), ())"
    and u: "map unkey out = map unkey (filter (\<lambda>v. v \<noteq> Null) (leavesOf T))"
    by (auto simp: callsFrom_echo filter_leaves)
  from o assms have r: "r = Arr NoKey out" by (simp add: toArray_def)
  from u have "length (map unkey out) = length (map unkey (filter (\<lambda>v. v \<noteq> Null) (leavesOf T)))"
    by simp
  then have l: "length out = length (filter (\<lambda>v. v \<noteq> Null) (leavesOf T))" by simp
  from id_ok(1) [OF fi, of array p nm s0]
  have n: "\<exists>arr. mapIntoArray T array p nm identityCallback s0 = (Inr (length (leavesOf T), arr), s0)"
    by blast
  from c f r u l n False show ?thesis by (simp add: visited_def)
qed

theorem count_forEach_toArray_agree_witness:
  "toArray (Arr NoKey [Leaf REACT_ELEMENT_TYPE (Some ''x'') ''A'', Arr NoKey [Null, Str ''b'']]) =
     Inr (Arr NoKey [Leaf REACT_ELEMENT_TYPE (Some ''.$x'') ''A'', Str ''b'']) \<and>
   countChildren (Arr NoKey [Leaf REACT_ELEMENT_TYPE (Some ''x'') ''A'', Arr NoKey [Null, Str ''b'']]) =
     Inr 3 \<and>
   forEachChildren (Arr NoKey [Leaf REACT_ELEMENT_TYPE (Some ''x'') ''A'', Arr NoKey [Null, Str ''b'']])
       logCall [] =
     (Inr (), [(Leaf REACT_ELEMENT_TYPE (Some ''x'') ''A'', 0), (Null, 1), (Str ''b'', 2)])"
proof -
  let ?T = "Arr NoKey [Leaf REACT_ELEMENT_TYPE (Some ''x'') ''A'', Arr NoKey [Null, Str ''b'']]"
  have t: "toArray ?T = Inr (Arr NoKey [Leaf REACT_ELEMENT_TYPE (Some ''.$x'') ''A'', Str ''b''])"
    by (simp add: toArray_def mapChildren_def evals)
  have v: "visited ?T = [Leaf REACT_ELEMENT_TYPE (Some ''x'') ''A'', Null, Str ''b'']"
    by (simp add: visited_def looseNull_def normalise_def)
  from count_forEach_toArray_agree [OF t, where fn = logCall and s = "[]" and array = "[]"
      and p = "[]" and nm = "[]" and ?s0.0 = "()"] t
  show ?thesis
    by (simp add: v logCall_def numeral_3_eq_3)
qed




end
